theory Spec2Isabelle
  imports Main "HOL-Library.Multiset"
begin

section \<open>Yahtzee scoring rules (src/src/Rules.js)\<close>

text \<open>
  The dice of a hand are JavaScript numbers holding small integers; they are modelled as
  \<open>int\<close>. A hand is the array passed to \<open>evalRoll\<close>, modelled as an \<open>int list\<close>. None of
  the functions below assigns to the array or to the rule instance: the only objects that
  are mutated are the \<open>Map\<close> and the \<open>Set\<close> that a call creates for itself, and those are
  threaded explicitly through the loops that fill them.
\<close>

subsection \<open>Errors\<close>

text \<open>
  The only exception the rules can raise is the \<open>TypeError\<close> of \<open>Array.prototype.reduce\<close>
  called on an empty array without an initial value.
\<close>

datatype error = TypeError

subsection \<open>The insertion-ordered \<open>Map\<close> and \<open>Set\<close> of JavaScript\<close>

text \<open>
  A \<open>Map\<close> keeps its entries in the order in which their keys were first inserted;
  \<open>set\<close> on a key that is present replaces the value and keeps the position.
\<close>

type_synonym jsmap = "(int \<times> int) list"

fun Map_get :: "jsmap \<Rightarrow> int \<Rightarrow> int option" where
  "Map_get [] k = None"
| "Map_get ((k', v') # m) k = (if k' = k then Some v' else Map_get m k)"

fun Map_set :: "jsmap \<Rightarrow> int \<Rightarrow> int \<Rightarrow> jsmap" where
  "Map_set [] k v = [(k, v)]"
| "Map_set ((k', v') # m) k v =
     (if k' = k then (k, v) # m else (k', v') # Map_set m k v)"

definition Map_values :: "jsmap \<Rightarrow> int list" where
  "Map_values m = map snd m"

text \<open>\<open>x || 0\<close> on the result of \<open>get\<close>: \<open>undefined\<close> and \<open>0\<close> are falsy.\<close>

definition or_zero :: "int option \<Rightarrow> int" where
  "or_zero x = (case x of None \<Rightarrow> 0 | Some c \<Rightarrow> (if c = 0 then 0 else c))"

text \<open>A \<open>Set\<close> keeps its elements in insertion order, each once.\<close>

type_synonym jsset = "int list"

definition Set_add :: "jsset \<Rightarrow> int \<Rightarrow> jsset" where
  "Set_add s x = (if x \<in> set s then s else s @ [x])"

definition Set_new :: "int list \<Rightarrow> jsset" where
  "Set_new dice = foldl Set_add [] dice"

definition Set_has :: "jsset \<Rightarrow> int \<Rightarrow> bool" where
  "Set_has s x = (x \<in> set s)"

definition Set_size :: "jsset \<Rightarrow> int" where
  "Set_size s = int (length s)"

subsection \<open>The helpers of class \<open>Rule\<close>\<close>

text \<open>\<open>sum\<close>: \<open>dice.reduce((prev, curr) => prev + curr)\<close>, which throws on an empty array.\<close>

definition Rule_sum :: "int list \<Rightarrow> error + int" where
  "Rule_sum dice =
     (case dice of
        [] \<Rightarrow> Inl TypeError
      | d # ds \<Rightarrow> Inr (foldl (\<lambda>prev curr. prev + curr) d ds))"

text \<open>\<open>freq\<close>: one pass over the dice that counts into a fresh \<open>Map\<close>, then its values.\<close>

definition freq_step :: "jsmap \<Rightarrow> int \<Rightarrow> jsmap" where
  "freq_step freqs d = Map_set freqs d (or_zero (Map_get freqs d) + 1)"

definition Rule_freq :: "int list \<Rightarrow> int list" where
  "Rule_freq dice = Map_values (foldl freq_step [] dice)"

text \<open>\<open>count\<close>: \<open>dice.filter((d) => d === val).length\<close>.\<close>

definition Rule_count :: "int list \<Rightarrow> int \<Rightarrow> int" where
  "Rule_count dice val = int (length (filter (\<lambda>d. d = val) dice))"

text \<open>Reading index 0 of an array gives \<open>undefined\<close> when the array is empty.\<close>

definition Array_first :: "int list \<Rightarrow> int option" where
  "Array_first xs = (case xs of [] \<Rightarrow> None | x # _ \<Rightarrow> Some x)"

subsection \<open>The rule classes\<close>

text \<open>
  The constructor copies its parameters onto the instance. Each subclass reads only the
  parameter named here, next to the description. For \<open>SumDistro\<close> the parameter is called
  \<open>count\<close> (written \<open>count'\<close> below): as an own property it shadows the inherited
  method \<open>count\<close>, which that class does not call.
\<close>

datatype rule =
    TotalOneNumber int string
  | SumDistro int string
  | FullHouse int string
  | SmallStraight int string
  | LargeStraight int string
  | Yahtzee int string

fun evalRoll :: "rule \<Rightarrow> int list \<Rightarrow> error + int" where
  "evalRoll (TotalOneNumber val _) dice = Inr (val * Rule_count dice val)"
| "evalRoll (SumDistro count' _) dice =
     (if list_ex (\<lambda>c. c \<ge> count') (Rule_freq dice) then Rule_sum dice else Inr 0)"
| "evalRoll (FullHouse score _) dice =
     (let freqs = Rule_freq dice
      in Inr (if 2 \<in> set freqs \<and> 3 \<in> set freqs then score else 0))"
| "evalRoll (SmallStraight score _) dice =
     (let d = Set_new dice
      in if Set_has d 2 \<and> Set_has d 4 \<and> Set_has d 3 \<and> (Set_has d 5 \<or> Set_has d 1)
         then Inr score
         else if Set_has d 3 \<and> Set_has d 4 \<and> Set_has d 5 \<and> (Set_has d 6 \<or> Set_has d 2)
         then Inr score
         else Inr 0)"
| "evalRoll (LargeStraight score _) dice =
     (let d = Set_new dice
      in Inr (if Set_size d = 5 \<and> (\<not> Set_has d 1 \<or> \<not> Set_has d 6) then score else 0))"
| "evalRoll (Yahtzee score _) dice =
     Inr (if Array_first (Rule_freq dice) = Some 5 then score else 0)"

subsection \<open>The catalog\<close>

definition ones :: rule where "ones = TotalOneNumber 1 ''Sum of 1's''"
definition twos :: rule where "twos = TotalOneNumber 2 ''Sum of 2's''"
definition threes :: rule where "threes = TotalOneNumber 3 ''Sum of 3's''"
definition fours :: rule where "fours = TotalOneNumber 4 ''Sum of 4's''"
definition fives :: rule where "fives = TotalOneNumber 5 ''Sum of 5's''"
definition sixes :: rule where "sixes = TotalOneNumber 6 ''Sum of 6's''"

definition threeOfKind :: rule where
  "threeOfKind = SumDistro 3 ''Sum of three of a kind''"
definition fourOfKind :: rule where
  "fourOfKind = SumDistro 4 ''Sum of four of a kind''"

definition fullHouse :: rule where
  "fullHouse = FullHouse 25 ''Full House (25 points)''"

definition smallStraight :: rule where
  "smallStraight = SmallStraight 30 ''Small Straight (30 points)''"
definition largeStraight :: rule where
  "largeStraight = LargeStraight 40 ''Large Straight (40 points)''"

definition yahtzee :: rule where
  "yahtzee = Yahtzee 50 ''Yahtzee (50 points)''"

definition chance :: rule where
  "chance = SumDistro 0 ''Sum of all dice''"

text \<open>The thirteen exported rules, in the order of the export list.\<close>

definition catalog :: "rule list" where
  "catalog = [ones, twos, threes, fours, fives, sixes, threeOfKind, fourOfKind,
              fullHouse, smallStraight, largeStraight, yahtzee, chance]"

subsection \<open>Well-formed hands\<close>

text \<open>A hand is well formed when it has exactly five dice, each showing 1 to 6.\<close>

definition wf_hand :: "int list \<Rightarrow> bool" where
  "wf_hand H = (length H = 5 \<and> list_all (\<lambda>d. 1 \<le> d \<and> d \<le> 6) H)"

subsection \<open>Scores within a bound\<close>

text \<open>An evaluation stays within a bound when it returns a number from 0 to that bound.\<close>

definition score_within :: "error + int \<Rightarrow> int \<Rightarrow> bool" where
  "score_within res b = (case res of Inl e \<Rightarrow> False | Inr n \<Rightarrow> 0 \<le> n \<and> n \<le> b)"

section \<open>The same code on an explicit heap\<close>

text \<open>
  JavaScript passes the array of dice and the rule instance by reference, so a call could
  in principle change either, or leave something behind that a later call reads. To state
  that it does not, the code is modelled a second time on a heap of objects: every
  object the code creates is allocated, every \<open>set\<close> on the \<open>Map\<close> is a store at the
  address of that \<open>Map\<close>, and every read of the array or of a property of \<open>this\<close> is a
  load from the heap as it is at that moment. Iterator and closure objects, which the
  code cannot reach again, are not modelled, and the methods of the prototype are fixed.
\<close>

subsection \<open>Objects, addresses and the heap\<close>

text \<open>
  An address is an index into the list of objects; allocation appends. A load outside
  the heap finds nothing.
\<close>

type_synonym addr = nat

datatype obj = Instance rule | Array "int list" | MapObj jsmap | SetObj jsset

type_synonym heap = "obj list"

definition load :: "heap \<Rightarrow> addr \<Rightarrow> obj option" where
  "load h a = (if a < length h then Some (h ! a) else None)"

definition store :: "heap \<Rightarrow> addr \<Rightarrow> obj \<Rightarrow> heap" where
  "store h a v = h[a := v]"

definition alloc :: "heap \<Rightarrow> obj \<Rightarrow> addr \<times> heap" where
  "alloc h v = (length h, h @ [v])"

text \<open>
  A call returns a value, or throws, in both cases with the heap it leaves; \<open>Stuck\<close>
  stands for an address that does not hold the kind of object the code expects, which
  has no counterpart in JavaScript.
\<close>

datatype 'a outcome = Returns 'a heap | Throws error heap | Stuck

definition array_at :: "heap \<Rightarrow> addr \<Rightarrow> int list option" where
  "array_at h a = (case load h a of Some (Array xs) \<Rightarrow> Some xs | _ \<Rightarrow> None)"

definition map_at :: "heap \<Rightarrow> addr \<Rightarrow> jsmap option" where
  "map_at h a = (case load h a of Some (MapObj m) \<Rightarrow> Some m | _ \<Rightarrow> None)"

subsection \<open>The helpers of class \<open>Rule\<close> on the heap\<close>

text \<open>
  The loop of \<open>freq\<close>, \<open>for (let d of dice) freqs.set(d, (freqs.get(d) || 0) + 1)\<close>: the
  array iterator compares its index with the current length of the array and reads the
  current element at each step; the body loads the \<open>Map\<close> and stores the updated one.
\<close>

function freq_loop :: "addr \<Rightarrow> addr \<Rightarrow> nat \<Rightarrow> heap \<Rightarrow> heap option" where
  "freq_loop freqs dice i h =
     (case array_at h dice of
        None \<Rightarrow> None
      | Some xs \<Rightarrow>
          if i < length xs
          then (case map_at h freqs of
                  None \<Rightarrow> None
                | Some m \<Rightarrow>
                    freq_loop freqs dice (Suc i) (store h freqs (MapObj (freq_step m (xs ! i)))))
          else Some h)"
  by pat_completeness auto
termination
proof (relation "measure (\<lambda>(freqs, dice, i, h).
                   (case array_at h dice of None \<Rightarrow> 0 | Some xs \<Rightarrow> length xs - i))")
  show "wf (measure (\<lambda>(freqs, dice, i, h).
                   (case array_at h dice of None \<Rightarrow> 0 | Some xs \<Rightarrow> length xs - i)))"
    by simp
next
  fix freqs dice :: addr and i :: nat and h :: heap and xs m
  assume "array_at h dice = Some xs" "i < length xs" "map_at h freqs = Some m"
  then have "array_at (store h freqs (MapObj (freq_step m (xs ! i)))) dice = Some xs"
    by (auto simp: array_at_def map_at_def load_def store_def nth_list_update
             split: option.splits obj.splits if_splits)
  with \<open>i < length xs\<close>
  show "((freqs, dice, Suc i, store h freqs (MapObj (freq_step m (xs ! i)))),
         (freqs, dice, i, h))
        \<in> measure (\<lambda>(freqs, dice, i, h).
              (case array_at h dice of None \<Rightarrow> 0 | Some xs \<Rightarrow> length xs - i))"
    using \<open>array_at h dice = Some xs\<close> by simp
qed


declare freq_loop.simps [simp del]

text \<open>Reading the property \<open>val\<close>, \<open>count\<close> or \<open>score\<close> of the instance at \<open>this\<close>.\<close>

definition this_field :: "heap \<Rightarrow> addr \<Rightarrow> (rule \<Rightarrow> int option) \<Rightarrow> int option" where
  "this_field h this sel = (case load h this of Some (Instance r) \<Rightarrow> sel r | _ \<Rightarrow> None)"

fun rule_val :: "rule \<Rightarrow> int option" where
  "rule_val (TotalOneNumber val _) = Some val"
| "rule_val _ = None"

fun rule_count :: "rule \<Rightarrow> int option" where
  "rule_count (SumDistro count' _) = Some count'"
| "rule_count _ = None"

fun rule_score :: "rule \<Rightarrow> int option" where
  "rule_score (FullHouse score _) = Some score"
| "rule_score (SmallStraight score _) = Some score"
| "rule_score (LargeStraight score _) = Some score"
| "rule_score (Yahtzee score _) = Some score"
| "rule_score _ = None"

text \<open>\<open>sum\<close> only reads the array.\<close>

definition Rule_sum_h :: "addr \<Rightarrow> heap \<Rightarrow> int outcome" where
  "Rule_sum_h dice h =
     (case array_at h dice of
        None \<Rightarrow> Stuck
      | Some xs \<Rightarrow> (case Rule_sum xs of Inl e \<Rightarrow> Throws e h | Inr n \<Rightarrow> Returns n h))"

text \<open>
  \<open>freq\<close> allocates the \<open>Map\<close>, runs the loop, and allocates the array made from the
  values of the \<open>Map\<close>, whose address it returns.
\<close>

definition Rule_freq_h :: "addr \<Rightarrow> heap \<Rightarrow> addr outcome" where
  "Rule_freq_h dice h =
     (let (freqs, h1) = alloc h (MapObj [])
      in case freq_loop freqs dice 0 h1 of
           None \<Rightarrow> Stuck
         | Some h2 \<Rightarrow>
             (case map_at h2 freqs of
                None \<Rightarrow> Stuck
              | Some m \<Rightarrow> (let (arr, h3) = alloc h2 (Array (Map_values m)) in Returns arr h3)))"

text \<open>\<open>count\<close>: \<open>filter\<close> allocates a new array, whose length is read.\<close>

definition Rule_count_h :: "addr \<Rightarrow> int \<Rightarrow> heap \<Rightarrow> int outcome" where
  "Rule_count_h dice val h =
     (case array_at h dice of
        None \<Rightarrow> Stuck
      | Some xs \<Rightarrow>
          (let (arr, h1) = alloc h (Array (filter (\<lambda>d. d = val) xs))
           in case array_at h1 arr of
                None \<Rightarrow> Stuck
              | Some ys \<Rightarrow> Returns (int (length ys)) h1))"

text \<open>\<open>new Set(dice)\<close> allocates the set of the elements of the array.\<close>

definition Set_new_h :: "addr \<Rightarrow> heap \<Rightarrow> addr outcome" where
  "Set_new_h dice h =
     (case array_at h dice of
        None \<Rightarrow> Stuck
      | Some xs \<Rightarrow> (let (d, h1) = alloc h (SetObj (Set_new xs)) in Returns d h1))"

definition set_at :: "heap \<Rightarrow> addr \<Rightarrow> jsset option" where
  "set_at h a = (case load h a of Some (SetObj s) \<Rightarrow> Some s | _ \<Rightarrow> None)"

subsection \<open>The rule classes on the heap\<close>

text \<open>
  Each \<open>evalRoll\<close> takes the addresses of the instance and of the array. A property of
  \<open>this\<close> is loaded where the source reads it: before the call of \<open>count\<close> in
  \<open>TotalOneNumber\<close>, after the call of \<open>freq\<close> or of the \<open>Set\<close> constructor in the other
  classes.
\<close>

definition evalRoll_TotalOneNumber :: "addr \<Rightarrow> addr \<Rightarrow> heap \<Rightarrow> int outcome" where
  "evalRoll_TotalOneNumber this dice h =
     (case this_field h this rule_val of
        None \<Rightarrow> Stuck
      | Some val \<Rightarrow>
          (case Rule_count_h dice val h of
             Returns c h1 \<Rightarrow> Returns (val * c) h1
           | Throws e h1 \<Rightarrow> Throws e h1
           | Stuck \<Rightarrow> Stuck))"

definition evalRoll_SumDistro :: "addr \<Rightarrow> addr \<Rightarrow> heap \<Rightarrow> int outcome" where
  "evalRoll_SumDistro this dice h =
     (case Rule_freq_h dice h of
        Returns arr h1 \<Rightarrow>
          (case (array_at h1 arr, this_field h1 this rule_count) of
             (Some fs, Some count') \<Rightarrow>
               if list_ex (\<lambda>c. c \<ge> count') fs then Rule_sum_h dice h1 else Returns 0 h1
           | _ \<Rightarrow> Stuck)
      | Throws e h1 \<Rightarrow> Throws e h1
      | Stuck \<Rightarrow> Stuck)"

definition evalRoll_FullHouse :: "addr \<Rightarrow> addr \<Rightarrow> heap \<Rightarrow> int outcome" where
  "evalRoll_FullHouse this dice h =
     (case Rule_freq_h dice h of
        Returns freqs h1 \<Rightarrow>
          (case (array_at h1 freqs, this_field h1 this rule_score) of
             (Some fs, Some score) \<Rightarrow>
               Returns (if 2 \<in> set fs \<and> 3 \<in> set fs then score else 0) h1
           | _ \<Rightarrow> Stuck)
      | Throws e h1 \<Rightarrow> Throws e h1
      | Stuck \<Rightarrow> Stuck)"

definition evalRoll_SmallStraight :: "addr \<Rightarrow> addr \<Rightarrow> heap \<Rightarrow> int outcome" where
  "evalRoll_SmallStraight this dice h =
     (case Set_new_h dice h of
        Returns d h1 \<Rightarrow>
          (case (set_at h1 d, this_field h1 this rule_score) of
             (Some s, Some score) \<Rightarrow>
               if Set_has s 2 \<and> Set_has s 4 \<and> Set_has s 3 \<and> (Set_has s 5 \<or> Set_has s 1)
               then Returns score h1
               else if Set_has s 3 \<and> Set_has s 4 \<and> Set_has s 5 \<and> (Set_has s 6 \<or> Set_has s 2)
               then Returns score h1
               else Returns 0 h1
           | _ \<Rightarrow> Stuck)
      | Throws e h1 \<Rightarrow> Throws e h1
      | Stuck \<Rightarrow> Stuck)"

definition evalRoll_LargeStraight :: "addr \<Rightarrow> addr \<Rightarrow> heap \<Rightarrow> int outcome" where
  "evalRoll_LargeStraight this dice h =
     (case Set_new_h dice h of
        Returns d h1 \<Rightarrow>
          (case (set_at h1 d, this_field h1 this rule_score) of
             (Some s, Some score) \<Rightarrow>
               Returns (if Set_size s = 5 \<and> (\<not> Set_has s 1 \<or> \<not> Set_has s 6) then score else 0) h1
           | _ \<Rightarrow> Stuck)
      | Throws e h1 \<Rightarrow> Throws e h1
      | Stuck \<Rightarrow> Stuck)"

definition evalRoll_Yahtzee :: "addr \<Rightarrow> addr \<Rightarrow> heap \<Rightarrow> int outcome" where
  "evalRoll_Yahtzee this dice h =
     (case Rule_freq_h dice h of
        Returns arr h1 \<Rightarrow>
          (case (array_at h1 arr, this_field h1 this rule_score) of
             (Some fs, Some score) \<Rightarrow>
               Returns (if Array_first fs = Some 5 then score else 0) h1
           | _ \<Rightarrow> Stuck)
      | Throws e h1 \<Rightarrow> Throws e h1
      | Stuck \<Rightarrow> Stuck)"

text \<open>
  A call \<open>rule.evalRoll(dice)\<close> runs the function that the instance at \<open>rule\<close> carries,
  which is the one of its class.
\<close>

definition evalRoll_h :: "addr \<Rightarrow> addr \<Rightarrow> heap \<Rightarrow> int outcome" where
  "evalRoll_h this dice h =
     (case load h this of
        Some (Instance r) \<Rightarrow>
          (case r of
             TotalOneNumber _ _ \<Rightarrow> evalRoll_TotalOneNumber this dice h
           | SumDistro _ _ \<Rightarrow> evalRoll_SumDistro this dice h
           | FullHouse _ _ \<Rightarrow> evalRoll_FullHouse this dice h
           | SmallStraight _ _ \<Rightarrow> evalRoll_SmallStraight this dice h
           | LargeStraight _ _ \<Rightarrow> evalRoll_LargeStraight this dice h
           | Yahtzee _ _ \<Rightarrow> evalRoll_Yahtzee this dice h)
      | _ \<Rightarrow> Stuck)"

section \<open>Facts about the helpers\<close>

lemmas catalog_defs =
  ones_def twos_def threes_def fours_def fives_def sixes_def threeOfKind_def
  fourOfKind_def fullHouse_def smallStraight_def largeStraight_def yahtzee_def chance_def


subsection \<open>The \<open>Set\<close> of a hand\<close>

lemma set_foldl_Set_add: "set (foldl Set_add s dice) = set s \<union> set dice"
  by (induction dice arbitrary: s) (auto simp: Set_add_def)

lemma distinct_foldl_Set_add: "distinct s \<Longrightarrow> distinct (foldl Set_add s dice)"
  by (induction dice arbitrary: s) (auto simp: Set_add_def)

lemma Set_has_Set_new: "Set_has (Set_new dice) x = (x \<in> set dice)"
  by (simp add: Set_has_def Set_new_def set_foldl_Set_add)

lemma Set_size_Set_new: "Set_size (Set_new dice) = int (card (set dice))"
proof -
  have "distinct (Set_new dice)"
    by (simp add: Set_new_def distinct_foldl_Set_add)
  then have "length (Set_new dice) = card (set (Set_new dice))"
    by (simp add: distinct_card)
  then show ?thesis
    by (simp add: Set_size_def Set_new_def set_foldl_Set_add)
qed

subsection \<open>\<open>sum\<close> and \<open>count\<close>\<close>

lemma foldl_plus_sum_list: "foldl (\<lambda>prev curr. prev + curr) (a::int) ds = a + sum_list ds"
  by (induction ds arbitrary: a) auto

lemma Rule_sum_nonempty: "dice \<noteq> [] \<Longrightarrow> Rule_sum dice = Inr (sum_list dice)"
  by (cases dice) (auto simp: Rule_sum_def foldl_plus_sum_list)

lemma Rule_count_count_list: "Rule_count dice v = int (count_list dice v)"
  by (induction dice) (auto simp: Rule_count_def)

subsection \<open>The frequency \<open>Map\<close>\<close>

lemma or_zero_simps [simp]: "or_zero None = 0" "or_zero (Some c) = c"
  by (auto simp: or_zero_def)

lemma Map_get_Map_set: "Map_get (Map_set m k v) k' = (if k' = k then Some v else Map_get m k')"
  by (induction m) auto

lemma keys_Map_set:
  "map fst (Map_set m k v) = (if k \<in> fst ` set m then map fst m else map fst m @ [k])"
proof (induction m)
  case Nil
  show ?case by simp
next
  case (Cons p m)
  obtain k' v' where p: "p = (k', v')" by (cases p)
  show ?case
  proof (cases "k' = k")
    case True
    then show ?thesis by (simp add: p)
  next
    case False
    then show ?thesis using Cons.IH by (simp add: p)
  qed
qed

lemma Map_get_None_iff: "Map_get m k = None \<longleftrightarrow> k \<notin> fst ` set m"
proof (induction m)
  case Nil
  show ?case by simp
next
  case (Cons p m)
  obtain k' v' where p: "p = (k', v')" by (cases p)
  show ?case using Cons.IH by (simp add: p)
qed

lemma distinct_keys_freq:
  "distinct (map fst m) \<Longrightarrow> distinct (map fst (foldl freq_step m ds))"
  by (induction ds arbitrary: m) (auto simp: freq_step_def keys_Map_set)

lemma keys_freq: "fst ` set (foldl freq_step m ds) = fst ` set m \<union> set ds"
proof (induction ds arbitrary: m)
  case Nil show ?case by simp
next
  case (Cons d ds)
  have "fst ` set (freq_step m d) = insert d (fst ` set m)"
    using keys_Map_set[of m d "or_zero (Map_get m d) + 1"]
    by (metis (no_types, lifting) Un_insert_right append_Nil2 freq_step_def insert_absorb list.set_map list.simps(15) set_append)
  with Cons show ?case by auto
qed

lemma Map_get_freq:
  "Map_get (foldl freq_step m ds) k =
     (if k \<in> fst ` set m \<union> set ds
      then Some (or_zero (Map_get m k) + int (count_list ds k)) else None)"
proof (induction ds arbitrary: m)
  case Nil
  show ?case using Map_get_None_iff[of m k] by (cases "Map_get m k") auto
next
  case (Cons d ds)
  have k: "fst ` set (freq_step m d) = insert d (fst ` set m)"
    using keys_freq[of m "[d]"] by simp
  show ?case
    by (simp add: Cons.IH k) (auto simp: freq_step_def Map_get_Map_set)
qed

lemma set_values_distinct:
  "distinct (map fst m) \<Longrightarrow> set (Map_values m) = {c. \<exists>k. Map_get m k = Some c}"
proof (induction m)
  case Nil show ?case by (simp add: Map_values_def)
next
  case (Cons p m)
  obtain k v where p: "p = (k, v)" by (cases p)
  from Cons.prems p have nk: "Map_get m k = None" 
    by (simp add: Map_get_None_iff)
  from Cons p have IH: "set (Map_values m) = {c. \<exists>k. Map_get m k = Some c}" by simp
  have "{c. \<exists>k'. Map_get ((k, v) # m) k' = Some c} = insert v {c. \<exists>k'. Map_get m k' = Some c}"
  proof (intro set_eqI iffI)
    fix c assume "c \<in> {c. \<exists>k'. Map_get ((k, v) # m) k' = Some c}"
    then obtain k' where "Map_get ((k, v) # m) k' = Some c" by blast
    then show "c \<in> insert v {c. \<exists>k'. Map_get m k' = Some c}"
      by (cases "k = k'") auto
  next
    fix c assume c: "c \<in> insert v {c. \<exists>k'. Map_get m k' = Some c}"
    show "c \<in> {c. \<exists>k'. Map_get ((k, v) # m) k' = Some c}"
    proof (cases "c = v")
      case True
      have "Map_get ((k, v) # m) k = Some v" by simp
      with True show ?thesis by blast
    next
      case False
      with c obtain k' where k': "Map_get m k' = Some c" by blast
      with nk have "k \<noteq> k'" by auto
      with k' have "Map_get ((k, v) # m) k' = Some c" by simp
      then show ?thesis by blast
    qed
  qed
  moreover have "set (Map_values ((k, v) # m)) = insert v (set (Map_values m))"
    by (simp add: Map_values_def)
  ultimately show ?case unfolding p using IH by simp
qed

lemma set_Rule_freq: "set (Rule_freq dice) = (\<lambda>v. int (count_list dice v)) ` set dice"
proof -
  have "set (Rule_freq dice) = {c. \<exists>k. Map_get (foldl freq_step [] dice) k = Some c}"
    unfolding Rule_freq_def by (rule set_values_distinct) (simp add: distinct_keys_freq)
  also have "\<dots> = (\<lambda>v. int (count_list dice v)) ` set dice"
    by (auto simp: Map_get_freq)
  finally show ?thesis .
qed

lemma length_Rule_freq: "length (Rule_freq dice) = card (set dice)"
proof -
  let ?m = "foldl freq_step [] dice"
  have "distinct (map fst ?m)" by (simp add: distinct_keys_freq)
  then have "length (map fst ?m) = card (set (map fst ?m))" by (simp only: distinct_card)
  also have "set (map fst ?m) = set dice" using keys_freq[of "[]" dice] by simp
  finally show ?thesis by (simp add: Rule_freq_def Map_values_def)
qed

lemma Rule_freq_nonempty: "H \<noteq> [] \<Longrightarrow> Rule_freq H \<noteq> []"
  using length_Rule_freq[of H] by (auto simp: card_eq_0_iff)

lemma freq_member:
  "c \<in> set (Rule_freq H) \<longleftrightarrow> (\<exists>v\<in>set H. int (count_list H v) = c)"
  by (auto simp: set_Rule_freq)

lemma freq_member_pos:
  "0 < n \<Longrightarrow> int n \<in> set (Rule_freq H) \<longleftrightarrow> (\<exists>v. count_list H v = n)"
proof -
  assume n: "0 < n"
  have "(\<exists>v\<in>set H. int (count_list H v) = int n) \<longleftrightarrow> (\<exists>v. count_list H v = n)"
  proof
    assume "\<exists>v\<in>set H. int (count_list H v) = int n"
    then show "\<exists>v. count_list H v = n" by auto
  next
    assume "\<exists>v. count_list H v = n"
    then obtain v where v: "count_list H v = n" ..
    with n have "v \<in> set H" by (metis count_notin less_numeral_extra(3))
    with v show "\<exists>v\<in>set H. int (count_list H v) = int n" by auto
  qed
  then show ?thesis by (simp only: freq_member)
qed

lemma freq_threshold:
  "list_ex (\<lambda>c. c \<ge> k) (Rule_freq H) \<longleftrightarrow> (\<exists>v\<in>set H. int (count_list H v) \<ge> k)"
  by (simp only: list_ex_iff set_Rule_freq bex_simps image_iff)

subsection \<open>Well-formed hands and counting\<close>

lemma wf_hand_length: "wf_hand H \<Longrightarrow> length H = 5"
  by (simp add: wf_hand_def)

lemma wf_hand_nonempty: "wf_hand H \<Longrightarrow> H \<noteq> []"
  by (auto simp: wf_hand_def)

lemma wf_hand_range: "wf_hand H \<Longrightarrow> d \<in> set H \<Longrightarrow> 1 \<le> d \<and> d \<le> 6"
  by (simp add: wf_hand_def list_all_iff)

lemma wf_hand_faces: "wf_hand H \<Longrightarrow> set H \<subseteq> {1, 2, 3, 4, 5, 6}"
proof
  fix d assume "wf_hand H" "d \<in> set H"
  then have "1 \<le> d \<and> d \<le> 6" by (rule wf_hand_range)
  then show "d \<in> {1, 2, 3, 4, 5, 6}" by (simp; arith)
qed

lemma count_list_full: "count_list xs v = length xs \<Longrightarrow> set xs \<subseteq> {v}"
proof (induction xs)
  case Nil
  show ?case by simp
next
  case (Cons x xs)
  have le: "count_list xs v \<le> length xs" by (rule count_le_length)
  show ?case
  proof (cases "x = v")
    case True
    with Cons show ?thesis by simp
  next
    case False
    with Cons.prems le show ?thesis by simp
  qed
qed

lemma count_list_single: "set xs \<subseteq> {v} \<Longrightarrow> count_list xs v = length xs"
  by (induction xs) auto

lemma sum_list_bounds:
  "list_all (\<lambda>d. 1 \<le> d \<and> d \<le> 6) H \<Longrightarrow> int (length H) \<le> sum_list H \<and> sum_list H \<le> 6 * int (length H)"
  by (induction H) auto

text \<open>The hands used as examples below are well formed.\<close>

lemma wf_12344: "wf_hand [1, 2, 3, 4, 4]"
  by (simp add: wf_hand_def)

lemma wf_12356: "wf_hand [1, 2, 3, 5, 6]"
  by (simp add: wf_hand_def)

lemma wf_22333: "wf_hand [2, 2, 3, 3, 3]"
  by (simp add: wf_hand_def)

lemma wf_22222: "wf_hand [2, 2, 2, 2, 2]"
  by (simp add: wf_hand_def)

lemma wf_22345: "wf_hand [2, 2, 3, 4, 5]"
  by (simp add: wf_hand_def)

lemma wf_44421: "wf_hand [4, 4, 4, 2, 1]"
  by (simp add: wf_hand_def)

lemma wf_44321: "wf_hand [4, 4, 3, 2, 1]"
  by (simp add: wf_hand_def)

lemma wf_22325: "wf_hand [2, 2, 3, 2, 5]"
  by (simp add: wf_hand_def)

lemma wf_43421: "wf_hand [4, 3, 4, 2, 1]"
  by (simp add: wf_hand_def)

lemma wf_66666: "wf_hand [6, 6, 6, 6, 6]"
  by (simp add: wf_hand_def)

lemma wf_66665: "wf_hand [6, 6, 6, 6, 5]"
  by (simp add: wf_hand_def)

lemma wf_12345: "wf_hand [1, 2, 3, 4, 5]"
  by (simp add: wf_hand_def)

lemma wf_23456: "wf_hand [2, 3, 4, 5, 6]"
  by (simp add: wf_hand_def)

section \<open>What each rule class computes\<close>

text \<open>
  Each class is read off in terms of the hand as a collection of dice: the set of its
  faces, the number of occurrences of a face, and the sum.
\<close>

lemma eval_TotalOneNumber:
  "evalRoll (TotalOneNumber v desc) H = Inr (v * int (count_list H v))"
  by (simp add: Rule_count_count_list)

lemma eval_SumDistro:
  "H \<noteq> [] \<Longrightarrow> evalRoll (SumDistro k desc) H =
     Inr (if \<exists>v\<in>set H. int (count_list H v) \<ge> k then sum_list H else 0)"
  by (simp add: freq_threshold Rule_sum_nonempty)

lemma eval_FullHouse:
  "evalRoll (FullHouse s desc) H =
     Inr (if (\<exists>v. count_list H v = 2) \<and> (\<exists>w. count_list H w = 3) then s else 0)"
proof -
  have two: "2 \<in> set (Rule_freq H) \<longleftrightarrow> (\<exists>v. count_list H v = 2)"
    using freq_member_pos[of 2 H] by simp
  have three: "3 \<in> set (Rule_freq H) \<longleftrightarrow> (\<exists>w. count_list H w = 3)"
    using freq_member_pos[of 3 H] by simp
  show ?thesis by (simp add: Let_def two three)
qed

lemma if_chain:
  "(if A then Inr s else if B then Inr s else Inr z) = Inr (if A \<or> B then s else z)"
  by simp

lemma eval_SmallStraight:
  "evalRoll (SmallStraight s desc) H =
     Inr (if (2 \<in> set H \<and> 4 \<in> set H \<and> 3 \<in> set H \<and> (5 \<in> set H \<or> 1 \<in> set H)) \<or>
             (3 \<in> set H \<and> 4 \<in> set H \<and> 5 \<in> set H \<and> (6 \<in> set H \<or> 2 \<in> set H))
          then s else 0)"
  unfolding evalRoll.simps Let_def Set_has_Set_new by (rule if_chain)

lemma eval_LargeStraight:
  "evalRoll (LargeStraight s desc) H =
     Inr (if card (set H) = 5 \<and> \<not> (1 \<in> set H \<and> 6 \<in> set H) then s else 0)"
  by (simp add: Set_has_Set_new Set_size_Set_new)

text \<open>
  The first entry of a frequency sequence, in whatever order it lists the counts, is 5
  exactly when the five dice show one face.
\<close>

lemma first_is_five:
  assumes "wf_hand H" and "set fs = set (Rule_freq H)" and "fs \<noteq> []"
  shows "Array_first fs = Some 5 \<longleftrightarrow> card (set H) = 1"
proof
  assume "Array_first fs = Some 5"
  then have "5 \<in> set fs" by (auto simp: Array_first_def split: list.splits)
  then obtain v where v: "v \<in> set H" "int (count_list H v) = 5"
    using assms(2) by (auto simp: set_Rule_freq)
  then have "count_list H v = length H" using wf_hand_length[OF assms(1)] by simp
  then have "set H \<subseteq> {v}" by (rule count_list_full)
  with v(1) have "set H = {v}" by auto
  then show "card (set H) = 1" by simp
next
  assume "card (set H) = 1"
  then obtain v where v: "set H = {v}" by (auto simp: card_1_singleton_iff)
  then have "count_list H v = length H" by (intro count_list_single) simp
  then have "set (Rule_freq H) = {5}"
    using v wf_hand_length[OF assms(1)] by (simp add: set_Rule_freq)
  with assms(2) have "set fs = {5}" by simp
  with assms(3) show "Array_first fs = Some 5"
    by (cases fs) (auto simp: Array_first_def)
qed

lemma eval_Yahtzee:
  assumes "wf_hand H"
  shows "evalRoll (Yahtzee s desc) H = Inr (if card (set H) = 1 then s else 0)"
proof -
  have "Rule_freq H \<noteq> []" using assms by (intro Rule_freq_nonempty wf_hand_nonempty)
  then have "Array_first (Rule_freq H) = Some 5 \<longleftrightarrow> card (set H) = 1"
    using assms by (intro first_is_five) simp_all
  then show ?thesis by simp
qed

section \<open>The rules on well-formed hands\<close>

subsection \<open>Yahtzee\<close>

text \<open>
  Claim C1. On every well-formed hand the Yahtzee rule returns 50 when the hand shows
  exactly one distinct face value, and 0 otherwise. The test the code makes, that the
  first entry of the frequency sequence is 5, is equivalent to that condition, and remains
  so for every reordering \<open>fs\<close> of the frequency sequence.
\<close>

theorem Yahtzee_one_distinct_value:
  assumes "wf_hand H"
  shows "evalRoll yahtzee H = Inr (if card (set H) = 1 then 50 else 0) \<and>
         (\<forall>fs. mset fs = mset (Rule_freq H) \<longrightarrow>
            (Array_first fs = Some 5 \<longleftrightarrow> card (set H) = 1))"
proof -
  have ne: "Rule_freq H \<noteq> []"
    using assms by (intro Rule_freq_nonempty wf_hand_nonempty)
  have order: "Array_first fs = Some 5 \<longleftrightarrow> card (set H) = 1"
    if "mset fs = mset (Rule_freq H)" for fs
  proof -
    from that have "set fs = set (Rule_freq H)" by (rule mset_eq_setD)
    moreover from that ne have "fs \<noteq> []" by auto
    ultimately show ?thesis using assms by (intro first_is_five)
  qed
  have "evalRoll yahtzee H = Inr (if card (set H) = 1 then 50 else 0)"
    unfolding yahtzee_def using assms by (rule eval_Yahtzee)
  with order show ?thesis by blast
qed

theorem Yahtzee_one_distinct_value_witness:
  "wf_hand [6, 6, 6, 6, 6] \<and> evalRoll yahtzee [6, 6, 6, 6, 6] = Inr 50 \<and>
   wf_hand [6, 6, 6, 6, 5] \<and> evalRoll yahtzee [6, 6, 6, 6, 5] = Inr 0"
proof -
  have "evalRoll yahtzee [6, 6, 6, 6, 6] = Inr 50"
    using Yahtzee_one_distinct_value[OF wf_66666, THEN conjunct1] by simp
  moreover have "evalRoll yahtzee [6, 6, 6, 6, 5] = Inr 0"
    using Yahtzee_one_distinct_value[OF wf_66665, THEN conjunct1] by simp
  ultimately show ?thesis using wf_66666 wf_66665 by (simp only: simp_thms)
qed

subsection \<open>Large straight\<close>

lemma five_faces:
  assumes "wf_hand H"
  shows "(card (set H) = 5 \<and> \<not> (1 \<in> set H \<and> 6 \<in> set H)) \<longleftrightarrow>
         (set H = {1, 2, 3, 4, 5} \<or> set H = {2, 3, 4, 5, 6})"
proof
  assume a: "card (set H) = 5 \<and> \<not> (1 \<in> set H \<and> 6 \<in> set H)"
  have sub: "set H \<subseteq> {1, 2, 3, 4, 5, 6}" using assms by (rule wf_hand_faces)
  show "set H = {1, 2, 3, 4, 5} \<or> set H = {2, 3, 4, 5, 6}"
  proof (cases "1 \<in> set H")
    case True
    with a have "6 \<notin> set H" by simp
    with sub have "set H \<subseteq> {1, 2, 3, 4, 5}" by auto
    moreover have "card {1, 2, 3, 4, 5 :: int} = 5" by simp
    ultimately have "set H = {1, 2, 3, 4, 5}"
      using a by (intro card_subset_eq) auto
    then show ?thesis ..
  next
    case False
    with sub have "set H \<subseteq> {2, 3, 4, 5, 6}" by auto
    moreover have "card {2, 3, 4, 5, 6 :: int} = 5" by simp
    ultimately have "set H = {2, 3, 4, 5, 6}"
      using a by (intro card_subset_eq) auto
    then show ?thesis ..
  qed
next
  assume "set H = {1, 2, 3, 4, 5} \<or> set H = {2, 3, 4, 5, 6}"
  then show "card (set H) = 5 \<and> \<not> (1 \<in> set H \<and> 6 \<in> set H)"
    by (elim disjE) simp_all
qed

text \<open>
  Claim C2. On every well-formed hand the large straight returns 40 when the hand has
  exactly five distinct face values and does not contain both a 1 and a 6, and 0
  otherwise; the condition says that the distinct values are 1 to 5 or 2 to 6. The
  witness evaluates the three hands of the claim.
\<close>

theorem LargeStraight_five_distinct:
  assumes "wf_hand H"
  shows "evalRoll largeStraight H =
           Inr (if card (set H) = 5 \<and> \<not> (1 \<in> set H \<and> 6 \<in> set H) then 40 else 0) \<and>
         ((card (set H) = 5 \<and> \<not> (1 \<in> set H \<and> 6 \<in> set H)) \<longleftrightarrow>
            (set H = {1, 2, 3, 4, 5} \<or> set H = {2, 3, 4, 5, 6}))"
proof -
  have "evalRoll largeStraight H =
          Inr (if card (set H) = 5 \<and> \<not> (1 \<in> set H \<and> 6 \<in> set H) then 40 else 0)"
    unfolding largeStraight_def by (rule eval_LargeStraight)
  with five_faces[OF assms] show ?thesis by blast
qed

theorem LargeStraight_five_distinct_witness:
  "wf_hand [1, 2, 3, 4, 5] \<and> evalRoll largeStraight [1, 2, 3, 4, 5] = Inr 40 \<and>
   wf_hand [2, 3, 4, 5, 6] \<and> evalRoll largeStraight [2, 3, 4, 5, 6] = Inr 40 \<and>
   wf_hand [1, 2, 3, 4, 4] \<and> evalRoll largeStraight [1, 2, 3, 4, 4] = Inr 0"
proof -
  have "evalRoll largeStraight [1, 2, 3, 4, 5] = Inr 40"
    using LargeStraight_five_distinct[OF wf_12345, THEN conjunct1] by simp
  moreover have "evalRoll largeStraight [2, 3, 4, 5, 6] = Inr 40"
    using LargeStraight_five_distinct[OF wf_23456, THEN conjunct1] by simp
  moreover have "evalRoll largeStraight [1, 2, 3, 4, 4] = Inr 0"
    using LargeStraight_five_distinct[OF wf_12344, THEN conjunct1] by simp
  ultimately show ?thesis using wf_12345 wf_23456 wf_12344 by (simp only: simp_thms)
qed

subsection \<open>Small straight\<close>

lemma run_sets:
  "{2, 3, 4} \<subseteq> S \<longleftrightarrow> (2::int) \<in> S \<and> 3 \<in> S \<and> 4 \<in> S"
  "{3, 4, 5} \<subseteq> S \<longleftrightarrow> (3::int) \<in> S \<and> 4 \<in> S \<and> 5 \<in> S"
  "{1, 2, 3, 4} \<subseteq> S \<longleftrightarrow> (1::int) \<in> S \<and> 2 \<in> S \<and> 3 \<in> S \<and> 4 \<in> S"
  "{2, 3, 4, 5} \<subseteq> S \<longleftrightarrow> (2::int) \<in> S \<and> 3 \<in> S \<and> 4 \<in> S \<and> 5 \<in> S"
  "{3, 4, 5, 6} \<subseteq> S \<longleftrightarrow> (3::int) \<in> S \<and> 4 \<in> S \<and> 5 \<in> S \<and> 6 \<in> S"
  by (simp_all only: insert_subset empty_subsetI simp_thms)

text \<open>
  Claim C3. On every well-formed hand the small straight returns 30 when the distinct
  values contain 2, 3, 4 and one of 1, 5, or contain 3, 4, 5 and one of 2, 6, and 0
  otherwise; the condition says that one of the runs 1-2-3-4, 2-3-4-5, 3-4-5-6 is present.
  The witness evaluates the two hands of the claim.
\<close>

theorem SmallStraight_four_run:
  assumes "wf_hand H"
  shows "evalRoll smallStraight H =
           Inr (if ({2, 3, 4} \<subseteq> set H \<and> (1 \<in> set H \<or> 5 \<in> set H)) \<or>
                   ({3, 4, 5} \<subseteq> set H \<and> (2 \<in> set H \<or> 6 \<in> set H))
                then 30 else 0) \<and>
         ((({2, 3, 4} \<subseteq> set H \<and> (1 \<in> set H \<or> 5 \<in> set H)) \<or>
           ({3, 4, 5} \<subseteq> set H \<and> (2 \<in> set H \<or> 6 \<in> set H))) \<longleftrightarrow>
          ({1, 2, 3, 4} \<subseteq> set H \<or> {2, 3, 4, 5} \<subseteq> set H \<or> {3, 4, 5, 6} \<subseteq> set H))"
proof -
  have "(2 \<in> set H \<and> 4 \<in> set H \<and> 3 \<in> set H \<and> (5 \<in> set H \<or> 1 \<in> set H)) \<or>
        (3 \<in> set H \<and> 4 \<in> set H \<and> 5 \<in> set H \<and> (6 \<in> set H \<or> 2 \<in> set H)) \<longleftrightarrow>
        ({2, 3, 4} \<subseteq> set H \<and> (1 \<in> set H \<or> 5 \<in> set H)) \<or>
        ({3, 4, 5} \<subseteq> set H \<and> (2 \<in> set H \<or> 6 \<in> set H))"
    unfolding run_sets by blast
  then have "evalRoll smallStraight H =
           Inr (if ({2, 3, 4} \<subseteq> set H \<and> (1 \<in> set H \<or> 5 \<in> set H)) \<or>
                   ({3, 4, 5} \<subseteq> set H \<and> (2 \<in> set H \<or> 6 \<in> set H))
                then 30 else 0)"
    unfolding smallStraight_def by (simp only: eval_SmallStraight)
  moreover have "(({2, 3, 4} \<subseteq> set H \<and> (1 \<in> set H \<or> 5 \<in> set H)) \<or>
           ({3, 4, 5} \<subseteq> set H \<and> (2 \<in> set H \<or> 6 \<in> set H))) \<longleftrightarrow>
          ({1, 2, 3, 4} \<subseteq> set H \<or> {2, 3, 4, 5} \<subseteq> set H \<or> {3, 4, 5, 6} \<subseteq> set H)"
    unfolding run_sets by blast
  ultimately show ?thesis by (rule conjI)
qed

theorem SmallStraight_four_run_witness:
  "wf_hand [1, 2, 3, 4, 4] \<and> evalRoll smallStraight [1, 2, 3, 4, 4] = Inr 30 \<and>
   wf_hand [1, 2, 3, 5, 6] \<and> evalRoll smallStraight [1, 2, 3, 5, 6] = Inr 0"
proof -
  have "evalRoll smallStraight [1, 2, 3, 4, 4] = Inr 30"
    using SmallStraight_four_run[OF wf_12344, THEN conjunct1] by simp
  moreover have "evalRoll smallStraight [1, 2, 3, 5, 6] = Inr 0"
    using SmallStraight_four_run[OF wf_12356, THEN conjunct1] by simp
  ultimately show ?thesis using wf_12344 wf_12356 by (simp only: simp_thms)
qed

subsection \<open>Full house\<close>

text \<open>
  Claim C4. On every well-formed hand the full house returns 25 when some face appears
  exactly twice and some face appears exactly three times, and 0 otherwise; a hand whose
  single face appears five times scores 0. The witness evaluates the three hands of the
  claim.
\<close>

theorem FullHouse_pair_and_triple:
  assumes "wf_hand H"
  shows "evalRoll fullHouse H =
           Inr (if (\<exists>v. count_list H v = 2) \<and> (\<exists>w. count_list H w = 3) then 25 else 0) \<and>
         ((\<exists>v. count_list H v = 5) \<longrightarrow> evalRoll fullHouse H = Inr 0)"
proof -
  have eq: "evalRoll fullHouse H =
           Inr (if (\<exists>v. count_list H v = 2) \<and> (\<exists>w. count_list H w = 3) then 25 else 0)"
    unfolding fullHouse_def by (rule eval_FullHouse)
  have "evalRoll fullHouse H = Inr 0" if "\<exists>v. count_list H v = 5"
  proof -
    from that obtain v where five: "count_list H v = 5" ..
    then have "count_list H v = length H" using wf_hand_length[OF assms] by simp
    then have sub: "set H \<subseteq> {v}" by (rule count_list_full)
    have "\<not> (\<exists>w. count_list H w = 2)"
    proof
      assume "\<exists>w. count_list H w = 2"
      then obtain w where w: "count_list H w = 2" ..
      then have "w \<in> set H" by (metis count_notin zero_neq_numeral)
      with sub have "w = v" by auto
      with w five show False by simp
    qed
    with eq show ?thesis by simp
  qed
  with eq show ?thesis by blast
qed

theorem FullHouse_pair_and_triple_witness:
  "wf_hand [2, 2, 3, 3, 3] \<and> evalRoll fullHouse [2, 2, 3, 3, 3] = Inr 25 \<and>
   wf_hand [2, 2, 2, 2, 2] \<and> evalRoll fullHouse [2, 2, 2, 2, 2] = Inr 0 \<and>
   wf_hand [2, 2, 3, 4, 5] \<and> evalRoll fullHouse [2, 2, 3, 4, 5] = Inr 0"
proof -
  have "count_list [2, 2, 3, 3, 3] (2::int) = 2" and "count_list [2, 2, 3, 3, 3] (3::int) = 3"
    by simp_all
  then have "(\<exists>v. count_list [2, 2, 3, 3, 3] (v::int) = 2) \<and>
             (\<exists>w. count_list [2, 2, 3, 3, 3] (w::int) = 3)"
    by blast
  then have "evalRoll fullHouse [2, 2, 3, 3, 3] = Inr 25"
    using FullHouse_pair_and_triple[OF wf_22333, THEN conjunct1] by simp
  moreover have "count_list [2, 2, 2, 2, 2] (2::int) = 5" by simp
  then have "\<exists>v. count_list [2, 2, 2, 2, 2] (v::int) = 5" ..
  then have "evalRoll fullHouse [2, 2, 2, 2, 2] = Inr 0"
    using FullHouse_pair_and_triple[OF wf_22222, THEN conjunct2] by (rule rev_mp)
  moreover have "\<not> (\<exists>w. count_list [2, 2, 3, 4, 5] (w::int) = 3)"
    by simp
  then have "evalRoll fullHouse [2, 2, 3, 4, 5] = Inr 0"
    using FullHouse_pair_and_triple[OF wf_22345, THEN conjunct1]
    by (simp only: simp_thms if_False)
  ultimately show ?thesis using wf_22333 wf_22222 wf_22345 by (simp only: simp_thms)
qed

subsection \<open>Sum of the dice above a threshold\<close>

text \<open>
  Claim C5. On every well-formed hand a \<open>SumDistro\<close> rule with threshold \<open>k\<close> returns
  the sum of the five dice when some face of the hand occurs at least \<open>k\<close> times, and 0
  otherwise. For three of a kind and four of a kind that is a face occurring at least 3
  and 4 times; chance, with threshold 0, always returns the sum.
\<close>

theorem SumDistro_threshold_sum:
  assumes "wf_hand H"
  shows "evalRoll (SumDistro k desc) H =
           Inr (if \<exists>v\<in>set H. int (count_list H v) \<ge> k then sum_list H else 0) \<and>
         evalRoll threeOfKind H =
           Inr (if \<exists>v. count_list H v \<ge> 3 then sum_list H else 0) \<and>
         evalRoll fourOfKind H =
           Inr (if \<exists>v. count_list H v \<ge> 4 then sum_list H else 0) \<and>
         evalRoll chance H = Inr (sum_list H)"
proof -
  have ne: "H \<noteq> []" using assms by (rule wf_hand_nonempty)
  note gen = eval_SumDistro[OF ne]
  have pos: "(\<exists>v\<in>set H. int (count_list H v) \<ge> int n) \<longleftrightarrow> (\<exists>v. count_list H v \<ge> n)"
    if "0 < n" for n
  proof
    assume "\<exists>v\<in>set H. int (count_list H v) \<ge> int n"
    then show "\<exists>v. count_list H v \<ge> n" by auto
  next
    assume "\<exists>v. count_list H v \<ge> n"
    then obtain v where v: "count_list H v \<ge> n" ..
    with that have "v \<in> set H" by (metis count_notin not_less)
    with v show "\<exists>v\<in>set H. int (count_list H v) \<ge> int n" by auto
  qed
  have three: "evalRoll threeOfKind H =
           Inr (if \<exists>v. count_list H v \<ge> 3 then sum_list H else 0)"
    unfolding threeOfKind_def gen using pos[of 3] by simp
  have four: "evalRoll fourOfKind H =
           Inr (if \<exists>v. count_list H v \<ge> 4 then sum_list H else 0)"
    unfolding fourOfKind_def gen using pos[of 4] by simp
  from ne obtain d where "d \<in> set H" by (cases H) auto
  then have "\<exists>v\<in>set H. int (count_list H v) \<ge> 0" by auto
  then have ch: "evalRoll chance H = Inr (sum_list H)"
    unfolding chance_def gen by simp
  from gen[of k desc] three four ch show ?thesis by (intro conjI)
qed

theorem SumDistro_threshold_sum_witness:
  "wf_hand [4, 4, 4, 2, 1] \<and> evalRoll threeOfKind [4, 4, 4, 2, 1] = Inr 15 \<and>
   wf_hand [4, 4, 3, 2, 1] \<and> evalRoll threeOfKind [4, 4, 3, 2, 1] = Inr 0 \<and>
   evalRoll chance [4, 4, 3, 2, 1] = Inr 14"
proof -
  have "count_list [4, 4, 4, 2, 1] (4::int) \<ge> 3" by simp
  then have "\<exists>v. count_list [4, 4, 4, 2, 1] (v::int) \<ge> 3" ..
  then have "evalRoll threeOfKind [4, 4, 4, 2, 1] = Inr 15"
    using SumDistro_threshold_sum[OF wf_44421, THEN conjunct2, THEN conjunct1] by simp
  moreover have "\<not> (\<exists>v. count_list [4, 4, 3, 2, 1] (v::int) \<ge> 3)" by simp
  then have "evalRoll threeOfKind [4, 4, 3, 2, 1] = Inr 0"
    using SumDistro_threshold_sum[OF wf_44321, THEN conjunct2, THEN conjunct1] by simp
  moreover have "evalRoll chance [4, 4, 3, 2, 1] = Inr 14"
    using SumDistro_threshold_sum[OF wf_44321] by simp
  ultimately show ?thesis using wf_44421 wf_44321 by (simp only: simp_thms)
qed

subsection \<open>Total of one face\<close>

text \<open>
  Claim C6. On every well-formed hand and for every face \<open>v\<close> from 1 to 6, the rule
  \<open>TotalOneNumber\<close> configured with \<open>v\<close> returns \<open>v\<close> times the number of dice equal to
  \<open>v\<close>. The witness is the rule "twos" on the hand 2, 2, 3, 2, 5, which scores 6.
\<close>

theorem TotalOneNumber_val_times_count:
  assumes "wf_hand H" and "1 \<le> v" and "v \<le> 6"
  shows "evalRoll (TotalOneNumber v desc) H = Inr (v * int (count_list H v))"
  by (rule eval_TotalOneNumber)

theorem TotalOneNumber_val_times_count_witness:
  "wf_hand [2, 2, 3, 2, 5] \<and> (1::int) \<le> 2 \<and> (2::int) \<le> 6 \<and>
   evalRoll twos [2, 2, 3, 2, 5] = Inr 6"
proof -
  have "evalRoll twos [2, 2, 3, 2, 5] = Inr 6"
    unfolding twos_def
    using TotalOneNumber_val_times_count[OF wf_22325, of 2 "''Sum of 2's''"] by simp
  then show ?thesis using wf_22325 by simp
qed

section \<open>Properties of the whole catalog\<close>

subsection \<open>Bounds on the scores\<close>

lemma count_list_le_five: "wf_hand H \<Longrightarrow> int (count_list H v) \<le> 5"
  using count_le_length[of H v] by (simp add: wf_hand_def)

lemma wf_sum_bounds: "wf_hand H \<Longrightarrow> 5 \<le> sum_list H \<and> sum_list H \<le> 30"
  using sum_list_bounds[of H] by (simp add: wf_hand_def)

lemma total_bounds:
  assumes "wf_hand H" and "1 \<le> v" and "v \<le> 6"
  shows "0 \<le> v * int (count_list H v) \<and> v * int (count_list H v) \<le> 30"
proof -
  have c: "int (count_list H v) \<le> 5" using assms(1) by (rule count_list_le_five)
  have "v * int (count_list H v) \<le> 6 * 5"
    using assms(2,3) c by (intro mult_mono) auto
  moreover have "0 \<le> v * int (count_list H v)" using assms(2) by simp
  ultimately show ?thesis by simp
qed

lemma score_within_Inr: "score_within (Inr n) b \<longleftrightarrow> 0 \<le> n \<and> n \<le> b"
  by (simp add: score_within_def)

lemma score_within_total:
  "wf_hand H \<Longrightarrow> 1 \<le> v \<Longrightarrow> v \<le> 6 \<Longrightarrow>
     score_within (evalRoll (TotalOneNumber v desc) H) 30"
  using total_bounds[of H v] by (simp add: score_within_Inr Rule_count_count_list)

lemma score_within_sum:
  assumes "wf_hand H"
  shows "score_within (evalRoll (SumDistro k desc) H) 30"
proof -
  have "H \<noteq> []" using assms by (rule wf_hand_nonempty)
  then have "Rule_sum H = Inr (sum_list H)" by (rule Rule_sum_nonempty)
  then show ?thesis using wf_sum_bounds[OF assms] by (simp add: score_within_Inr)
qed

text \<open>
  Claim C7. On every well-formed hand each of the thirteen rules of the catalog returns a
  number that is at least 0 and at most its largest award: 30 for the six single-value
  rules and the three sum rules, 25 for the full house, 30 for the small straight, 40 for
  the large straight and 50 for Yahtzee.
\<close>

theorem catalog_scores_bounded:
  assumes "wf_hand H"
  shows "score_within (evalRoll ones H) 30 \<and> score_within (evalRoll twos H) 30 \<and>
         score_within (evalRoll threes H) 30 \<and> score_within (evalRoll fours H) 30 \<and>
         score_within (evalRoll fives H) 30 \<and> score_within (evalRoll sixes H) 30 \<and>
         score_within (evalRoll threeOfKind H) 30 \<and>
         score_within (evalRoll fourOfKind H) 30 \<and>
         score_within (evalRoll fullHouse H) 25 \<and>
         score_within (evalRoll smallStraight H) 30 \<and>
         score_within (evalRoll largeStraight H) 40 \<and>
         score_within (evalRoll yahtzee H) 50 \<and>
         score_within (evalRoll chance H) 30"
proof (intro conjI)
  show "score_within (evalRoll ones H) 30"
    unfolding ones_def using assms by (intro score_within_total) simp_all
  show "score_within (evalRoll twos H) 30"
    unfolding twos_def using assms by (intro score_within_total) simp_all
  show "score_within (evalRoll threes H) 30"
    unfolding threes_def using assms by (intro score_within_total) simp_all
  show "score_within (evalRoll fours H) 30"
    unfolding fours_def using assms by (intro score_within_total) simp_all
  show "score_within (evalRoll fives H) 30"
    unfolding fives_def using assms by (intro score_within_total) simp_all
  show "score_within (evalRoll sixes H) 30"
    unfolding sixes_def using assms by (intro score_within_total) simp_all
  show "score_within (evalRoll threeOfKind H) 30"
    unfolding threeOfKind_def using assms by (rule score_within_sum)
  show "score_within (evalRoll fourOfKind H) 30"
    unfolding fourOfKind_def using assms by (rule score_within_sum)
  show "score_within (evalRoll chance H) 30"
    unfolding chance_def using assms by (rule score_within_sum)
  show "score_within (evalRoll fullHouse H) 25"
    by (simp add: fullHouse_def score_within_Inr Let_def)
  show "score_within (evalRoll smallStraight H) 30"
    unfolding smallStraight_def eval_SmallStraight by (simp add: score_within_Inr)
  show "score_within (evalRoll largeStraight H) 40"
    by (simp add: largeStraight_def score_within_Inr Let_def)
  show "score_within (evalRoll yahtzee H) 50"
    by (simp add: yahtzee_def score_within_Inr)
qed

theorem catalog_scores_bounded_witness:
  "wf_hand [2, 2, 3, 3, 3] \<and> score_within (evalRoll fullHouse [2, 2, 3, 3, 3]) 25 \<and>
   score_within (evalRoll chance [2, 2, 3, 3, 3]) 30 \<and>
   score_within (evalRoll yahtzee [2, 2, 3, 3, 3]) 50"
  using catalog_scores_bounded[OF wf_22333] wf_22333 by (simp only: simp_thms)

subsection \<open>Evaluation is total, leaves the heap as it was and depends on the hand alone\<close>

lemma load_Some_lt: "load h a = Some v \<Longrightarrow> a < length h"
  by (simp add: load_def split: if_splits)

lemma load_append: "load h a = Some v \<Longrightarrow> load (h @ g) a = Some v"
  by (simp add: load_def nth_append split: if_splits)

lemma load_fresh: "load (h @ [v]) (length h) = Some v"
  by (simp add: load_def)

lemma array_at_load: "array_at h a = Some xs \<longleftrightarrow> load h a = Some (Array xs)"
  by (simp add: array_at_def split: option.splits obj.splits)

lemma array_at_append: "array_at h a = Some xs \<Longrightarrow> array_at (h @ g) a = Some xs"
  by (simp add: array_at_load load_append)

lemma this_field_load: "load h this = Some (Instance r) \<Longrightarrow> this_field (h @ g) this sel = sel r"
  by (simp add: this_field_def load_append)

lemma map_at_fresh: "map_at (h @ [MapObj m]) (length h) = Some m"
  by (simp add: map_at_def load_fresh)

lemma store_fresh: "store (h @ [x]) (length h) y = h @ [y]"
  by (simp add: store_def)

text \<open>
  A store is visible on the heap: run on a \<open>Map\<close> that was there before, the loop changes
  it in place. That a call of \<open>evalRoll\<close> changes nothing follows from where it stores,
  always at the address of the \<open>Map\<close> it has just allocated.
\<close>

lemma freq_loop_stores_in_place:
  "freq_loop 0 1 0 [MapObj [(4, 1)], Array [4, 2]] =
     Some [MapObj [(4, 2), (2, 1)], Array [4, 2]]"
  by (simp add: freq_loop.simps array_at_def map_at_def load_def store_def freq_step_def)

lemma freq_loop_fresh:
  assumes "array_at h dice = Some xs"
  shows "freq_loop (length h) dice i (h @ [MapObj m]) =
           Some (h @ [MapObj (foldl freq_step m (drop i xs))])"
proof (induction "length xs - i" arbitrary: i m)
  case 0
  then have "\<not> i < length xs" by simp
  then show ?case
    using array_at_append[OF assms, of "[MapObj m]"]
    by (subst freq_loop.simps) simp
next
  case (Suc n)
  then have lt: "i < length xs" and n: "n = length xs - Suc i" by simp_all
  have d: "drop i xs = xs ! i # drop (Suc i) xs"
    using lt by (simp add: Cons_nth_drop_Suc)
  have "freq_loop (length h) dice i (h @ [MapObj m]) =
          freq_loop (length h) dice (Suc i) (h @ [MapObj (freq_step m (xs ! i))])"
    using array_at_append[OF assms, of "[MapObj m]"] lt
    by (subst freq_loop.simps) (simp add: map_at_fresh store_fresh)
  also have "\<dots> = Some (h @ [MapObj (foldl freq_step (freq_step m (xs ! i)) (drop (Suc i) xs))])"
    using n by (rule Suc.hyps(1))
  finally show ?case by (simp add: d)
qed

lemma Rule_freq_h_eq:
  assumes "array_at h dice = Some xs"
  shows "Rule_freq_h dice h =
           Returns (Suc (length h))
             (h @ [MapObj (foldl freq_step [] xs), Array (Rule_freq xs)])"
proof -
  have "freq_loop (length h) dice 0 (h @ [MapObj []]) =
          Some (h @ [MapObj (foldl freq_step [] xs)])"
    using freq_loop_fresh[OF assms, of 0 "[]"] by simp
  then show ?thesis
    by (simp add: Rule_freq_h_def alloc_def map_at_fresh Rule_freq_def)
qed

lemma Rule_count_h_eq:
  assumes "array_at h dice = Some xs"
  shows "Rule_count_h dice val h =
           Returns (Rule_count xs val) (h @ [Array (filter (\<lambda>d. d = val) xs)])"
proof -
  have "array_at (h @ [Array (filter (\<lambda>d. d = val) xs)]) (length h) =
          Some (filter (\<lambda>d. d = val) xs)"
    by (simp add: array_at_def load_fresh)
  then show ?thesis
    using assms by (simp add: Rule_count_h_def alloc_def Rule_count_def)
qed

lemma Set_new_h_eq:
  assumes "array_at h dice = Some xs"
  shows "Set_new_h dice h = Returns (length h) (h @ [SetObj (Set_new xs)])"
  using assms by (simp add: Set_new_h_def alloc_def)

lemma set_at_fresh: "set_at (h @ [SetObj s]) (length h) = Some s"
  by (simp add: set_at_def load_fresh)

lemma array_at_fresh2: "array_at (h @ [x, Array ys]) (Suc (length h)) = Some ys"
  by (simp add: array_at_def load_def nth_append)

lemma Rule_sum_h_eq:
  assumes "array_at h dice = Some xs"
  shows "Rule_sum_h dice (h @ g) =
           (case Rule_sum xs of Inl e \<Rightarrow> Throws e (h @ g) | Inr n \<Rightarrow> Returns n (h @ g))"
  using array_at_append[OF assms, of g] by (simp add: Rule_sum_h_def)

lemma evalRoll_h_refines:
  assumes inst: "load h this = Some (Instance r)" and dice: "array_at h dice = Some xs"
  shows "\<exists>g. evalRoll_h this dice h =
              (case evalRoll r xs of Inl e \<Rightarrow> Throws e (h @ g) | Inr n \<Rightarrow> Returns n (h @ g))"
proof (cases r)
  case (TotalOneNumber v d)
  have "this_field h this rule_val = Some v"
    using this_field_load[OF inst, of "[]" rule_val] TotalOneNumber by simp
  then have "evalRoll_h this dice h =
          Returns (v * Rule_count xs v) (h @ [Array (filter (\<lambda>d. d = v) xs)])"
    using inst TotalOneNumber
    by (simp add: evalRoll_h_def evalRoll_TotalOneNumber_def Rule_count_h_eq[OF dice])
  then show ?thesis using TotalOneNumber by auto
next
  case (SumDistro k d)
  let ?g = "[MapObj (foldl freq_step [] xs), Array (Rule_freq xs)]"
  have f: "this_field (h @ ?g) this rule_count = Some k"
    using this_field_load[OF inst, of ?g rule_count] SumDistro by simp
  have "evalRoll_h this dice h =
          (if list_ex (\<lambda>c. c \<ge> k) (Rule_freq xs) then Rule_sum_h dice (h @ ?g)
           else Returns 0 (h @ ?g))"
    using inst SumDistro
    by (simp add: evalRoll_h_def evalRoll_SumDistro_def Rule_freq_h_eq[OF dice] f array_at_fresh2)
  then have "evalRoll_h this dice h =
              (case evalRoll r xs of Inl e \<Rightarrow> Throws e (h @ ?g) | Inr n \<Rightarrow> Returns n (h @ ?g))"
    using SumDistro by (simp add: Rule_sum_h_eq[OF dice])
  then show ?thesis ..
next
  case (FullHouse s d)
  let ?g = "[MapObj (foldl freq_step [] xs), Array (Rule_freq xs)]"
  have f: "this_field (h @ ?g) this rule_score = Some s"
    using this_field_load[OF inst, of ?g rule_score] FullHouse by simp
  have "evalRoll_h this dice h =
              (case evalRoll r xs of Inl e \<Rightarrow> Throws e (h @ ?g) | Inr n \<Rightarrow> Returns n (h @ ?g))"
    using inst FullHouse
    by (simp add: evalRoll_h_def evalRoll_FullHouse_def Rule_freq_h_eq[OF dice] f array_at_fresh2 Let_def)
  then show ?thesis ..
next
  case (SmallStraight s d)
  let ?g = "[SetObj (Set_new xs)]"
  have f: "this_field (h @ ?g) this rule_score = Some s"
    using this_field_load[OF inst, of ?g rule_score] SmallStraight by simp
  have "evalRoll_h this dice h =
              (case evalRoll r xs of Inl e \<Rightarrow> Throws e (h @ ?g) | Inr n \<Rightarrow> Returns n (h @ ?g))"
    using inst SmallStraight
    by (auto simp: evalRoll_h_def evalRoll_SmallStraight_def Set_new_h_eq[OF dice] f set_at_fresh
          Let_def)
  then show ?thesis ..
next
  case (LargeStraight s d)
  let ?g = "[SetObj (Set_new xs)]"
  have f: "this_field (h @ ?g) this rule_score = Some s"
    using this_field_load[OF inst, of ?g rule_score] LargeStraight by simp
  have "evalRoll_h this dice h =
              (case evalRoll r xs of Inl e \<Rightarrow> Throws e (h @ ?g) | Inr n \<Rightarrow> Returns n (h @ ?g))"
    using inst LargeStraight
    by (simp add: evalRoll_h_def evalRoll_LargeStraight_def Set_new_h_eq[OF dice] f set_at_fresh Let_def)
  then show ?thesis ..
next
  case (Yahtzee s d)
  let ?g = "[MapObj (foldl freq_step [] xs), Array (Rule_freq xs)]"
  have f: "this_field (h @ ?g) this rule_score = Some s"
    using this_field_load[OF inst, of ?g rule_score] Yahtzee by simp
  have "evalRoll_h this dice h =
              (case evalRoll r xs of Inl e \<Rightarrow> Throws e (h @ ?g) | Inr n \<Rightarrow> Returns n (h @ ?g))"
    using inst Yahtzee
    by (simp add: evalRoll_h_def evalRoll_Yahtzee_def Rule_freq_h_eq[OF dice] f array_at_fresh2)
  then show ?thesis ..
qed

lemma evalRoll_returns:
  assumes "wf_hand H"
  shows "\<exists>n. evalRoll r H = Inr n"
proof -
  have ne: "H \<noteq> []" using assms by (rule wf_hand_nonempty)
  show ?thesis
  proof (cases r)
    case (TotalOneNumber v d)
    then show ?thesis by (simp only: eval_TotalOneNumber) blast
  next
    case (SumDistro k d)
    then show ?thesis by (simp only: eval_SumDistro[OF ne]) blast
  next
    case (FullHouse sc d)
    then show ?thesis by (simp only: eval_FullHouse) blast
  next
    case (SmallStraight sc d)
    then show ?thesis by (simp only: eval_SmallStraight) blast
  next
    case (LargeStraight sc d)
    then show ?thesis by (simp only: eval_LargeStraight) blast
  next
    case (Yahtzee sc d)
    then show ?thesis by (simp only: eval_Yahtzee[OF assms]) blast
  qed
qed

lemma evalRoll_h_result:
  assumes "load g this = Some (Instance r)" and "load g dice = Some (Array H)"
    and "evalRoll r H = Inr n"
  shows "\<exists>k. evalRoll_h this dice g = Returns n (g @ k)"
proof -
  have "array_at g dice = Some H" using assms(2) by (simp add: array_at_load)
  from evalRoll_h_refines[OF assms(1) this] assms(3) show ?thesis by simp
qed

lemma heap_ex_this: "load [Instance chance, Array [6, 6, 6, 6, 6]] 0 = Some (Instance chance)"
  by (simp add: load_def)

lemma heap_ex_dice: "load [Instance chance, Array [6, 6, 6, 6, 6]] 1 = Some (Array [6, 6, 6, 6, 6])"
  by (simp add: load_def)

lemma chance_in_catalog: "chance \<in> set catalog"
  by (simp add: catalog_def)

text \<open>
  Claim C8. Take any heap that holds a rule of the catalog at \<open>this\<close> and a well-formed
  hand at \<open>dice\<close>. The evaluation returns a score \<open>n\<close> and raises nothing. The score is
  the value of the function \<open>evalRoll\<close> of the rule's configuration and the hand. Every
  object that was on the heap before the call is unchanged after it, the instance and the
  array included: the call only adds the objects it has created. Evaluating again on the
  heap that the first call leaves returns the same score, and so does an evaluation on any
  other heap that holds the same rule and the same hand at these addresses, whatever else
  that heap contains.
\<close>

theorem evalRoll_h_pure:
  assumes "load h this = Some (Instance r)" and "r \<in> set catalog"
    and "load h dice = Some (Array H)" and "wf_hand H"
  shows "\<exists>n h'. evalRoll_h this dice h = Returns n h' \<and>
           evalRoll r H = Inr n \<and>
           take (length h) h' = h \<and>
           (\<exists>h''. evalRoll_h this dice h' = Returns n h'') \<and>
           (\<forall>g. load g this = Some (Instance r) \<and> load g dice = Some (Array H) \<longrightarrow>
                (\<exists>g'. evalRoll_h this dice g = Returns n g'))"
proof -
  from assms(4) obtain n where n: "evalRoll r H = Inr n"
    using evalRoll_returns by blast
  from evalRoll_h_result[OF assms(1,3) n] obtain k
    where run: "evalRoll_h this dice h = Returns n (h @ k)" ..
  have any: "\<exists>g'. evalRoll_h this dice g = Returns n g'"
    if "load g this = Some (Instance r)" and "load g dice = Some (Array H)" for g
    using evalRoll_h_result[OF that n] by blast
  have again: "\<exists>h''. evalRoll_h this dice (h @ k) = Returns n h''"
    using assms(1,3) by (intro any load_append)
  from run n again any show ?thesis by auto
qed

theorem evalRoll_h_pure_witness:
  "load [Instance chance, Array [6, 6, 6, 6, 6]] 0 = Some (Instance chance) \<and>
   chance \<in> set catalog \<and>
   load [Instance chance, Array [6, 6, 6, 6, 6]] 1 = Some (Array [6, 6, 6, 6, 6]) \<and>
   wf_hand [6, 6, 6, 6, 6] \<and>
   (\<exists>h'. evalRoll_h 0 1 [Instance chance, Array [6, 6, 6, 6, 6]] = Returns 30 h' \<and>
         take 2 h' = [Instance chance, Array [6, 6, 6, 6, 6]] \<and>
         (\<exists>h''. evalRoll_h 0 1 h' = Returns 30 h''))"
proof -
  from evalRoll_h_pure[OF heap_ex_this chance_in_catalog heap_ex_dice wf_66666]
  obtain n h' where
    run: "evalRoll_h 0 1 [Instance chance, Array [6, 6, 6, 6, 6]] = Returns n h'"
    and n: "evalRoll chance [6, 6, 6, 6, 6] = Inr n"
    and frame: "take (length [Instance chance, Array [6, 6, 6, 6, 6]]) h' =
                  [Instance chance, Array [6, 6, 6, 6, 6]]"
    and again: "\<exists>h''. evalRoll_h 0 1 h' = Returns n h''"
    by blast
  have "evalRoll chance [6, 6, 6, 6, 6] = Inr 30"
    by (simp add: chance_def Rule_freq_def freq_step_def Map_values_def Rule_sum_def)
  with n have "n = 30" by simp
  moreover from frame have "take 2 h' = [Instance chance, Array [6, 6, 6, 6, 6]]"
    by (simp add: numeral_2_eq_2)
  ultimately
  have "\<exists>h'. evalRoll_h 0 1 [Instance chance, Array [6, 6, 6, 6, 6]] = Returns 30 h' \<and>
         take 2 h' = [Instance chance, Array [6, 6, 6, 6, 6]] \<and>
         (\<exists>h''. evalRoll_h 0 1 h' = Returns 30 h'')"
    using run again by blast
  with heap_ex_this chance_in_catalog heap_ex_dice wf_66666 show ?thesis
    by (simp only: simp_thms)
qed

subsection \<open>The order of the dice does not matter\<close>

lemma count_list_mset: "mset xs = mset ys \<Longrightarrow> count_list xs v = count_list ys v"
  by (metis count_mset)

lemma sum_list_mset: "mset xs = mset ys \<Longrightarrow> sum_list xs = sum_list (ys :: int list)"
  by (metis sum_mset_sum_list)

lemma wf_hand_mset: "mset xs = mset ys \<Longrightarrow> wf_hand xs \<Longrightarrow> wf_hand ys"
  by (metis wf_hand_def list_all_iff mset_eq_setD mset_eq_length)

lemma evalRoll_mset:
  assumes "wf_hand H1" and "mset H1 = mset H2"
  shows "evalRoll r H1 = evalRoll r H2"
proof -
  have wf2: "wf_hand H2" using assms(2,1) by (rule wf_hand_mset)
  have s: "set H1 = set H2" using assms(2) by (rule mset_eq_setD)
  have c: "count_list H1 v = count_list H2 v" for v using assms(2) by (rule count_list_mset)
  have sm: "sum_list H1 = sum_list H2" using assms(2) by (rule sum_list_mset)
  have ne: "H1 \<noteq> []" "H2 \<noteq> []" using assms(1) wf2 by (auto dest: wf_hand_nonempty)
  show ?thesis
  proof (cases r)
    case (TotalOneNumber v d)
    then show ?thesis by (simp only: eval_TotalOneNumber c)
  next
    case (SumDistro k d)
    then show ?thesis by (simp only: eval_SumDistro[OF ne(1)] eval_SumDistro[OF ne(2)] c s sm)
  next
    case (FullHouse sc d)
    then show ?thesis by (simp only: eval_FullHouse c)
  next
    case (SmallStraight sc d)
    then show ?thesis by (simp only: eval_SmallStraight s)
  next
    case (LargeStraight sc d)
    then show ?thesis by (simp only: eval_LargeStraight s)
  next
    case (Yahtzee sc d)
    then show ?thesis by (simp only: eval_Yahtzee[OF assms(1)] eval_Yahtzee[OF wf2] s)
  qed
qed

text \<open>
  Claim C9. For every rule of the catalog, two well-formed hands that are permutations of
  each other (the same multiset of dice) get the same score. This includes Yahtzee, whose
  test reads the first entry of the insertion-ordered frequency sequence.
\<close>

theorem evalRoll_permutation_invariant:
  assumes "wf_hand H1" and "wf_hand H2" and "mset H1 = mset H2" and "r \<in> set catalog"
  shows "evalRoll r H1 = evalRoll r H2"
  using assms(1,3) by (rule evalRoll_mset)

theorem evalRoll_permutation_invariant_witness:
  "wf_hand [1, 2, 3, 4, 4] \<and> wf_hand [4, 3, 4, 2, 1] \<and>
   mset [1, 2, 3, 4, 4 :: int] = mset [4, 3, 4, 2, 1] \<and> smallStraight \<in> set catalog \<and>
   evalRoll smallStraight [1, 2, 3, 4, 4] = evalRoll smallStraight [4, 3, 4, 2, 1]"
proof -
  have m: "mset [1, 2, 3, 4, 4 :: int] = mset [4, 3, 4, 2, 1]" by (simp add: ac_simps)
  have r: "smallStraight \<in> set catalog" by (simp add: catalog_def)
  from evalRoll_permutation_invariant[OF wf_12344 wf_43421 m r] wf_12344 wf_43421 m r
  show ?thesis by (simp only: simp_thms)
qed

subsection \<open>The empty hand\<close>

text \<open>
  Claim C10. Each of the thirteen rules of the catalog returns 0 on the empty hand and
  raises nothing, although \<open>sum\<close> itself throws on an empty array: the frequency sequence
  of the empty hand is empty, so the test "some count is at least the threshold" fails,
  also for chance with threshold 0, and \<open>sum\<close> is not called.
\<close>

theorem empty_hand_scores_zero:
  "evalRoll ones [] = Inr 0 \<and> evalRoll twos [] = Inr 0 \<and> evalRoll threes [] = Inr 0 \<and>
   evalRoll fours [] = Inr 0 \<and> evalRoll fives [] = Inr 0 \<and> evalRoll sixes [] = Inr 0 \<and>
   evalRoll threeOfKind [] = Inr 0 \<and> evalRoll fourOfKind [] = Inr 0 \<and>
   evalRoll fullHouse [] = Inr 0 \<and> evalRoll smallStraight [] = Inr 0 \<and>
   evalRoll largeStraight [] = Inr 0 \<and> evalRoll yahtzee [] = Inr 0 \<and>
   evalRoll chance [] = Inr 0 \<and>
   Rule_sum [] = Inl TypeError \<and> Rule_freq [] = [] \<and>
   \<not> list_ex (\<lambda>c. c \<ge> 0) (Rule_freq [])"
  by (simp add: catalog_defs Rule_count_def Rule_freq_def Map_values_def Set_new_def
        Set_has_def Set_size_def Array_first_def Rule_sum_def)

end
